theory Spec2Isabelle
  imports Main
begin

section \<open>Data model of \<open>flask_server/models.py\<close>\<close>

text \<open>
  The module declares three tables.  A table is the list of its rows, in storage order.
  A string is the list of its characters, each a code point below 256 (the emails are
  ASCII texts).  Integer columns are Python's unbounded integers; a
  \<open>DateTime\<close> column is a point on an integer time axis (only the order of two
  timestamps is ever used).  The string columns are nullable, so they hold an
  \<open>option\<close>; the key and timestamp columns are taken to be filled in, as the
  primary keys and the \<open>default=datetime.utcnow\<close> of the source make them.
\<close>

record User =
  id_user :: int
  username :: "string option"
  email :: "string option"
  about_me :: "string option"
  last_seen :: int
  password_hash :: "string option"
  poster :: bool

record Post =
  id_post :: int
  url :: "string option"
  body :: "string option"
  timestamp :: int
  user_id :: int

text \<open>
  A row of the association table \<open>followers\<close> is the pair
  \<open>(follower_id, followed_id)\<close>.  The table has no key and no uniqueness constraint,
  so the same pair may occur in several rows.
\<close>

type_synonym edge = "int \<times> int"

record db =
  users :: "User list"
  posts :: "Post list"
  followers :: "edge list"

text \<open>The exceptions that the modelled calls can raise.\<close>

datatype error = ValueError | AttributeError | OverflowError

text \<open>\<open>User.id\<close> and \<open>Post.id\<close> are primary keys: no two rows of a table share one.\<close>

definition primary_keys :: "db \<Rightarrow> bool" where
  "primary_keys d \<longleftrightarrow> distinct (map id_user (users d)) \<and> distinct (map id_post (posts d))"

section \<open>The social graph\<close>

text \<open>
  \<open>self.followed\<close> is the dynamic relationship through the secondary table: the query
  \<^verbatim>\<open>SELECT user.* FROM user, followers
      WHERE followers.follower_id = :self_id AND followers.followed_id = user.id\<close>
  Each result row is kept together with the edge it was joined to, because
  \<open>is_following\<close> filters on a column of the edge.
\<close>

definition followed :: "db \<Rightarrow> User \<Rightarrow> (User \<times> edge) list" where
  "followed d self =
     [(u, e). u \<leftarrow> users d, e \<leftarrow> followers d, fst e = id_user self \<and> snd e = id_user u]"

text \<open>
  \<^verbatim>\<open>return self.followed.filter(followers.c.followed_id == user.id).count() == 1\<close>
\<close>

definition is_following :: "db \<Rightarrow> User \<Rightarrow> User \<Rightarrow> bool" where
  "is_following d self user =
     (length (filter (\<lambda>(u, e). snd e = id_user user) (followed d self)) = 1)"

text \<open>
  \<^verbatim>\<open>if not self.is_following(user): self.followed.append(user)\<close>
  Appending to the relationship inserts the row \<open>(self.id, user.id)\<close> into
  \<open>followers\<close>; the session flushes it before the next query, so the returned
  state already holds the row.
\<close>

definition follow :: "db \<Rightarrow> User \<Rightarrow> User \<Rightarrow> db" where
  "follow d self user =
     (if \<not> is_following d self user
      then d\<lparr>followers := followers d @ [(id_user self, id_user user)]\<rparr>
      else d)"

text \<open>
  \<^verbatim>\<open>if self.is_following(user): self.followed.remove(user)\<close>
  Removing from the relationship issues
  \<^verbatim>\<open>DELETE FROM followers WHERE follower_id = :self_id AND followed_id = :user_id\<close>
\<close>

definition unfollow :: "db \<Rightarrow> User \<Rightarrow> User \<Rightarrow> db" where
  "unfollow d self user =
     (if is_following d self user
      then d\<lparr>followers := filter (\<lambda>e. e \<noteq> (id_user self, id_user user)) (followers d)\<rparr>
      else d)"

text \<open>
  \<open>followed_users\<close> joins \<open>Post\<close> to \<open>followers\<close> on
  \<open>followers.followed_id = Post.user_id\<close>, keeps the rows whose follower is
  \<open>self\<close>, and maps every post to \<open>User.query.filter_by(id=post.user_id).first()\<close>,
  which is \<open>None\<close> when no such user exists.  The result is a Python set.
\<close>

definition followed_rows :: "db \<Rightarrow> User \<Rightarrow> Post list" where
  "followed_rows d self =
     [p. p \<leftarrow> posts d, e \<leftarrow> followers d, snd e = user_id p \<and> fst e = id_user self]"

definition followed_users :: "db \<Rightarrow> User \<Rightarrow> User option set" where
  "followed_users d self =
     set (map (\<lambda>p. find (\<lambda>u. id_user u = user_id p) (users d)) (followed_rows d self))"

text \<open>
  \<open>followed_posts\<close>: the same join, united (SQL \<open>UNION\<close>, which drops duplicate rows)
  with the caller's own posts, ordered by \<open>timestamp\<close> descending.  SQL leaves the
  order of rows with equal timestamps open; the model takes the one a stable sort
  of the united rows gives.
\<close>

definition own_rows :: "db \<Rightarrow> User \<Rightarrow> Post list" where
  "own_rows d self = filter (\<lambda>p. user_id p = id_user self) (posts d)"

definition followed_posts :: "db \<Rightarrow> User \<Rightarrow> Post list" where
  "followed_posts d self =
     sort_key (\<lambda>p. - timestamp p) (remdups (followed_rows d self @ own_rows d self))"

section \<open>Session resolution\<close>

text \<open>
  Two settings of the running system that \<open>load_user\<close> depends on:
  \<^item> \<open>max_str_digits\<close> is the interpreter's \<open>sys.get_int_max_str_digits()\<close>, the
    longest run of digits that \<open>int\<close> converts (4300 by default); \<open>0\<close> stands for no
    limit, which is also what an interpreter without the setting has;
  \<^item> \<open>driver_int_bits\<close> is the width of the signed integers that the database driver
    binds as a query parameter (64 for \<open>sqlite3\<close>, which raises \<open>OverflowError\<close> for
    anything wider); \<open>0\<close> stands for a driver that binds every integer.
\<close>

record runtime =
  max_str_digits :: nat
  driver_int_bits :: nat

text \<open>
  \<open>int(id)\<close> on a string, base ten: surrounding white space is skipped, one sign is
  allowed, then decimal digits, where single underscores may stand between digits.
  Anything else raises \<open>ValueError\<close>.  White space is what \<open>int\<close> skips among the
  code points below 256: tab, line feed, vertical tab, form feed, carriage return and
  space, and also U+0085 and U+00A0, which \<open>int\<close> turns into spaces first.
\<close>

definition py_isspace :: "char \<Rightarrow> bool" where
  "py_isspace c \<longleftrightarrow> (of_char c :: nat) \<in> {9, 10, 11, 12, 13, 32, 133, 160}"

definition py_isdigit :: "char \<Rightarrow> bool" where
  "py_isdigit c \<longleftrightarrow> 48 \<le> (of_char c :: nat) \<and> (of_char c :: nat) \<le> 57"

definition digit_value :: "char \<Rightarrow> int" where
  "digit_value c = int (of_char c) - 48"

text \<open>
  The digit scan keeps the value read so far, the number of digits read and the
  previous character; it stops at the first character that is neither a digit nor an
  underscore, and fails on a doubled or trailing underscore.
\<close>

fun scan_int :: "int \<Rightarrow> nat \<Rightarrow> char \<Rightarrow> string \<Rightarrow> (int \<times> nat \<times> string) option" where
  "scan_int acc n prev [] = (if prev = CHR ''_'' then None else Some (acc, n, []))"
| "scan_int acc n prev (c # cs) =
     (if c = CHR ''_'' then (if prev = CHR ''_'' then None else scan_int acc n c cs)
      else if py_isdigit c then scan_int (10 * acc + digit_value c) (Suc n) c cs
      else if prev = CHR ''_'' then None
      else Some (acc, n, c # cs))"

text \<open>
  The limit on the digits: more than 640 digits (the interpreter's threshold, below which
  it does not look at the setting) and more than a non-zero \<open>max_str_digits\<close> raise
  \<open>ValueError\<close>.  Leading zeros count as digits; white space, sign and underscores do
  not.
\<close>

definition exceeds_digit_limit :: "nat \<Rightarrow> nat \<Rightarrow> bool" where
  "exceeds_digit_limit limit n \<longleftrightarrow> 640 < n \<and> 0 < limit \<and> limit < n"

definition py_int :: "nat \<Rightarrow> string \<Rightarrow> error + int" where
  "py_int limit s =
     (let t = dropWhile py_isspace s;
          neg = (t \<noteq> [] \<and> hd t = CHR ''-'');
          t' = (if t \<noteq> [] \<and> (hd t = CHR ''+'' \<or> hd t = CHR ''-'') then tl t else t)
      in case t' of
           [] \<Rightarrow> Inl ValueError
         | c # cs \<Rightarrow>
             if \<not> py_isdigit c then Inl ValueError
             else (case scan_int 0 0 c t' of
                     None \<Rightarrow> Inl ValueError
                   | Some (v, n, rest) \<Rightarrow>
                       if exceeds_digit_limit limit n then Inl ValueError
                       else if dropWhile py_isspace rest = [] then Inr (if neg then - v else v)
                       else Inl ValueError))"

text \<open>Whether the database driver can bind the integer \<open>k\<close> as a parameter.\<close>

definition binds :: "runtime \<Rightarrow> int \<Rightarrow> bool" where
  "binds r k \<longleftrightarrow>
     driver_int_bits r = 0 \<or>
     (- (2 ^ (driver_int_bits r - 1)) \<le> k \<and> k < 2 ^ (driver_int_bits r - 1))"

text \<open>
  \<^verbatim>\<open>return User.query.get(int(id))\<close>
  \<open>Query.get\<close> selects the row with that primary key and returns it, or \<open>None\<close>
  when there is none; a key that the driver cannot bind raises \<open>OverflowError\<close>.
\<close>

definition load_user :: "runtime \<Rightarrow> db \<Rightarrow> string \<Rightarrow> error + User option" where
  "load_user r d ident =
     (case py_int (max_str_digits r) ident of
        Inl e \<Rightarrow> Inl e
      | Inr k \<Rightarrow>
          if binds r k then Inr (find (\<lambda>u. id_user u = k) (users d))
          else Inl OverflowError)"

section \<open>Credentials\<close>

text \<open>
  The two functions imported from \<open>werkzeug.security\<close>.  A stored hash is the text
  \<open>method$salt$digest\<close>.  The key derivation itself (\<open>_hash_internal\<close>) is the
  parameter \<open>kdf\<close>: it maps method, salt and password to the hexadecimal digest, or
  raises for a method or salt it does not accept.  The method string and the salt that
  \<open>generate_password_hash\<close> draws at random are parameters too; \<open>method\<close> is the
  method as the library writes it into the hash.
\<close>

definition generate_password_hash ::
    "(string \<Rightarrow> string \<Rightarrow> string \<Rightarrow> error + string) \<Rightarrow> string \<Rightarrow> string \<Rightarrow> string \<Rightarrow> error + string" where
  "generate_password_hash kdf method salt password =
     (case kdf method salt password of
        Inl e \<Rightarrow> Inl e
      | Inr dg \<Rightarrow> Inr (method @ ''$'' @ salt @ ''$'' @ dg))"

text \<open>\<open>s.split("$", 1)\<close> for a string that holds a \<open>$\<close>: the text before the first one and the text after it.\<close>

definition split_dollar :: "string \<Rightarrow> string \<times> string" where
  "split_dollar s =
     (takeWhile (\<lambda>c. c \<noteq> CHR ''$'') s, tl (dropWhile (\<lambda>c. c \<noteq> CHR ''$'') s))"

text \<open>
  \<open>check_password_hash(pwhash, password)\<close> starts with a method call on \<open>pwhash\<close>
  (\<open>pwhash.count("$")\<close>), which raises \<open>AttributeError\<close> when \<open>pwhash\<close> is
  \<open>None\<close>.  A text with fewer than two \<open>$\<close> gives \<open>False\<close>; otherwise
  \<open>pwhash.split("$", 2)\<close> yields method, salt and digest, and the digest of the
  password is compared with the stored one.
\<close>

definition check_password_hash ::
    "(string \<Rightarrow> string \<Rightarrow> string \<Rightarrow> error + string) \<Rightarrow> string option \<Rightarrow> string \<Rightarrow> error + bool" where
  "check_password_hash kdf pwhash password =
     (case pwhash of
        None \<Rightarrow> Inl AttributeError
      | Some h \<Rightarrow>
          if count_list h CHR ''$'' < 2 then Inr False
          else (let (method, r) = split_dollar h;
                    (salt, hashval) = split_dollar r
                in case kdf method salt password of
                     Inl e \<Rightarrow> Inl e
                   | Inr dg \<Rightarrow> Inr (dg = hashval)))"

text \<open>\<^verbatim>\<open>self.password_hash = generate_password_hash(password)\<close>\<close>

definition set_password ::
    "(string \<Rightarrow> string \<Rightarrow> string \<Rightarrow> error + string) \<Rightarrow> string \<Rightarrow> string \<Rightarrow> User \<Rightarrow> string \<Rightarrow> error + User" where
  "set_password kdf method salt self password =
     (case generate_password_hash kdf method salt password of
        Inl e \<Rightarrow> Inl e
      | Inr h \<Rightarrow> Inr (self\<lparr>password_hash := Some h\<rparr>))"

text \<open>\<^verbatim>\<open>return check_password_hash(self.password_hash, password)\<close>\<close>

definition check_password ::
    "(string \<Rightarrow> string \<Rightarrow> string \<Rightarrow> error + string) \<Rightarrow> User \<Rightarrow> string \<Rightarrow> error + bool" where
  "check_password kdf self password = check_password_hash kdf (password_hash self) password"

section \<open>Avatar\<close>

text \<open>\<open>str.lower\<close> on ASCII text.\<close>

definition lower_char :: "char \<Rightarrow> char" where
  "lower_char c =
     (if 65 \<le> (of_char c :: nat) \<and> (of_char c :: nat) \<le> 90 then char_of (of_char c + (32 :: nat)) else c)"

definition lower :: "string \<Rightarrow> string" where
  "lower s = map lower_char s"

text \<open>\<open>"{}".format(size)\<close> for an integer: its decimal numeral, with a minus sign if negative.\<close>

fun str_nat :: "nat \<Rightarrow> string" where
  "str_nat n = (if n < 10 then [char_of (48 + n)] else str_nat (n div 10) @ [char_of (48 + n mod 10)])"

definition str_int :: "int \<Rightarrow> string" where
  "str_int i = (if i < 0 then CHR ''-'' # str_nat (nat (- i)) else str_nat (nat i))"

text \<open>
  \<^verbatim>\<open>digest = md5(self.email.lower().encode("utf-8")).hexdigest()
  return "https://www.gravatar.com/avatar/{}?d=identicon&s={}".format(digest, size)\<close>
  The parameter \<open>md5\<close> is \<open>hashlib\<close>'s function from the encoded text to its
  hexadecimal digest.  \<open>self.email\<close> may be \<open>None\<close>, on which \<open>.lower()\<close> raises.
\<close>

definition avatar :: "(string \<Rightarrow> string) \<Rightarrow> User \<Rightarrow> int \<Rightarrow> error + string" where
  "avatar md5 self size' =
     (case email self of
        None \<Rightarrow> Inl AttributeError
      | Some e \<Rightarrow>
          Inr (''https://www.gravatar.com/avatar/'' @ md5 (lower e) @ ''?d=identicon&s='' @ str_int size'))"

section \<open>Example data\<close>

definition alice :: User where
  "alice = \<lparr>id_user = 1, username = Some ''alice'', email = Some ''Alice@Example.com'',
            about_me = None, last_seen = 0, password_hash = None, poster = True\<rparr>"

definition bob :: User where
  "bob = \<lparr>id_user = 2, username = Some ''bob'', email = Some ''alice@example.COM'',
          about_me = None, last_seen = 0, password_hash = None, poster = False\<rparr>"

definition post1 :: Post where
  "post1 = \<lparr>id_post = 1, url = Some ''a'', body = None, timestamp = 1000, user_id = 1\<rparr>"

definition post2 :: Post where
  "post2 = \<lparr>id_post = 2, url = Some ''b'', body = None, timestamp = 1100, user_id = 1\<rparr>"

definition post3 :: Post where
  "post3 = \<lparr>id_post = 3, url = Some ''c'', body = None, timestamp = 1050, user_id = 2\<rparr>"

text \<open>Two users, nobody follows anybody, and bob has written nothing.\<close>

definition db_fresh :: db where
  "db_fresh = \<lparr>users = [alice, bob], posts = [post1, post2], followers = []\<rparr>"

text \<open>Alice follows bob and herself; all three posts exist.\<close>

definition db_feed :: db where
  "db_feed = \<lparr>users = [alice, bob], posts = [post1, post2, post3], followers = [(1, 2), (1, 1)]\<rparr>"

text \<open>The edge from alice to bob is stored twice.\<close>

definition db_dup :: db where
  "db_dup = \<lparr>users = [alice, bob], posts = [post1, post2], followers = [(1, 2), (1, 2)]\<rparr>"

text \<open>CPython with its default digit limit, on \<open>sqlite3\<close>.\<close>

definition cpython_sqlite :: runtime where
  "cpython_sqlite = \<lparr>max_str_digits = 4300, driver_int_bits = 64\<rparr>"

text \<open>A stand-in key derivation and a stand-in digest, for evaluating the examples.\<close>

definition demo_kdf :: "string \<Rightarrow> string \<Rightarrow> string \<Rightarrow> error + string" where
  "demo_kdf method salt password = Inr (rev password @ salt)"

definition demo_md5 :: "string \<Rightarrow> string" where
  "demo_md5 s = rev s"

section \<open>Properties of the social graph\<close>

subsection \<open>Counting the rows that \<open>is_following\<close> sees\<close>

lemma following_rows:
  "length (filter (\<lambda>(u, e). snd e = b) (followed d self)) =
     (\<Sum>u\<leftarrow>users d. if id_user u = b then count_list (followers d) (id_user self, b) else 0)"
proof -
  have "length (filter (\<lambda>(u, e). snd e = b)
          (concat (map (\<lambda>u. concat (map (\<lambda>e. if fst e = a \<and> snd e = id_user u then [(u, e)] else []) es)) us))) =
        (\<Sum>u\<leftarrow>us. if id_user u = b then count_list es (a, b) else 0)" for us es a
  proof (induction us)
    case Nil
    then show ?case by simp
  next
    case (Cons u us)
    have "length (filter (\<lambda>(u, e). snd e = b)
            (concat (map (\<lambda>e. if fst e = a \<and> snd e = id_user u then [(u, e)] else []) es))) =
          (if id_user u = b then count_list es (a, b) else 0)"
      by (induction es) (auto simp: prod_eq_iff)
    with Cons show ?case by simp
  qed
  then show ?thesis by (simp add: followed_def)
qed

lemma sum_absent_key:
  "k \<notin> f ` set us \<Longrightarrow> (\<Sum>v\<leftarrow>us. if f v = k then (c::nat) else 0) = 0"
  by (induction us) auto

lemma sum_single_key:
  "distinct (map f us) \<Longrightarrow> u \<in> set us \<Longrightarrow>
     (\<Sum>v\<leftarrow>us. if f v = f u then (c::nat) else 0) = c"
proof (induction us)
  case Nil
  then show ?case by simp
next
  case (Cons w us)
  show ?case
  proof (cases "u = w")
    case True
    with Cons.prems have "f u \<notin> f ` set us" by simp
    then show ?thesis using True by (simp add: sum_absent_key)
  next
    case False
    with Cons.prems have "u \<in> set us" and "f w \<noteq> f u" by auto
    with Cons show ?thesis by simp
  qed
qed

lemma is_following_count:
  "primary_keys d \<Longrightarrow> b \<in> set (users d) \<Longrightarrow>
     is_following d a b \<longleftrightarrow> count_list (followers d) (id_user a, id_user b) = 1"
  by (simp add: is_following_def following_rows sum_single_key primary_keys_def)

lemma not_following_without_edge:
  "count_list (followers d) (id_user a, id_user b) = 0 \<Longrightarrow> \<not> is_following d a b"
  by (simp add: is_following_def following_rows cong: if_cong)

lemma count_list_filter_neq: "count_list (filter (\<lambda>e. e \<noteq> x) es) x = 0"
  by (induction es) auto

lemma distinct_count_list: "distinct es \<Longrightarrow> count_list es x = (if x \<in> set es then 1 else 0)"
  by (induction es) auto

lemma sum_matching_rows:
  "(\<Sum>u\<leftarrow>us. if f u = k then (c::nat) else 0) = c * length (filter (\<lambda>u. f u = k) us)"
  by (induction us) auto

text \<open>
  When \<open>is_following\<close> holds, exactly one row of \<open>followers\<close> is the edge, so the
  \<open>DELETE\<close> of \<open>unfollow\<close> removes exactly one row.
\<close>

lemma is_following_one_edge:
  "is_following d a b \<Longrightarrow> count_list (followers d) (id_user a, id_user b) = 1"
  by (simp add: is_following_def following_rows sum_matching_rows)

lemma is_following_after_follow:
  assumes "primary_keys d" and "b \<in> set (users d)" and "distinct (followers d)"
  shows "is_following (follow d a b) a b"
proof (cases "is_following d a b")
  case True
  then show ?thesis by (simp add: follow_def)
next
  case False
  with assms have "count_list (followers d) (id_user a, id_user b) = 0"
    by (simp add: is_following_count distinct_count_list split: if_splits)
  with False have "count_list (followers (follow d a b)) (id_user a, id_user b) = 1"
    by (simp add: follow_def)
  moreover have "primary_keys (follow d a b)" and "b \<in> set (users (follow d a b))"
    using assms by (simp_all add: follow_def primary_keys_def)
  ultimately show ?thesis by (simp add: is_following_count)
qed

text \<open>
  Starting from a table without repeated edges, \<open>follow\<close> and \<open>unfollow\<close> never
  create one: the edges stay a set.
\<close>

lemma follow_keeps_invariant:
  "primary_keys d \<Longrightarrow> b \<in> set (users d) \<Longrightarrow> distinct (followers d) \<Longrightarrow>
     primary_keys (follow d a b) \<and> distinct (followers (follow d a b))"
  by (auto simp: follow_def is_following_count distinct_count_list primary_keys_def split: if_splits)

lemma unfollow_keeps_invariant:
  "primary_keys d \<Longrightarrow> distinct (followers d) \<Longrightarrow>
     primary_keys (unfollow d a b) \<and> distinct (followers (unfollow d a b))"
  by (simp add: unfollow_def primary_keys_def)

subsection \<open>\<open>is_following\<close>\<close>

text \<open>
  Claim C5.  For users \<open>A\<close> and \<open>B\<close>, where \<open>B\<close> is a row of the user table,
  \<open>A.is_following(B)\<close> is true exactly when the edge table holds exactly one row
  \<open>(A.id, B.id)\<close>; with more than one such row it is false: the test is
  \<open>count == 1\<close>, not \<open>count >= 1\<close>.
\<close>

theorem is_following_exactly_one_edge:
  assumes "primary_keys d" and "B \<in> set (users d)"
  shows "(is_following d A B \<longleftrightarrow> count_list (followers d) (id_user A, id_user B) = 1) \<and>
         (1 < count_list (followers d) (id_user A, id_user B) \<longrightarrow> \<not> is_following d A B)"
  using assms by (simp add: is_following_count)

theorem is_following_exactly_one_edge_witness:
  "primary_keys db_dup \<and> bob \<in> set (users db_dup) \<and>
   count_list (followers db_dup) (id_user alice, id_user bob) = 2 \<and>
   \<not> is_following db_dup alice bob"
proof -
  have pk: "primary_keys db_dup"
    by (simp add: primary_keys_def db_dup_def alice_def bob_def post1_def post2_def)
  have mem: "bob \<in> set (users db_dup)"
    by (simp add: db_dup_def)
  have cnt: "count_list (followers db_dup) (id_user alice, id_user bob) = 2"
    by (simp add: db_dup_def alice_def bob_def)
  from is_following_exactly_one_edge [OF pk mem, of alice] cnt
  have "\<not> is_following db_dup alice bob" by simp
  with pk mem cnt show ?thesis by simp
qed

subsection \<open>\<open>follow\<close>\<close>

text \<open>
  Claim C6 says that \<open>A.follow(B)\<close> is idempotent, and that a call made when the edge
  \<open>(A.id, B.id)\<close> already exists inserts nothing.  The table has no uniqueness
  constraint: where the edge is stored twice, \<open>is_following\<close> is false and \<open>follow\<close>
  inserts a third row.
\<close>

theorem follow_inserts_when_edge_is_repeated:
  "(id_user alice, id_user bob) \<in> set (followers db_dup) \<and>
   followers (follow db_dup alice bob) = [(1, 2), (1, 2), (1, 2)] \<and>
   follow db_dup alice bob \<noteq> db_dup"
proof -
  have edge: "(id_user alice, id_user bob) \<in> set (followers db_dup)"
    by (simp add: db_dup_def alice_def bob_def)
  have rows: "followers (follow db_dup alice bob) = [(1, 2), (1, 2), (1, 2)]"
    by (simp add: follow_def is_following_def followed_def db_dup_def alice_def bob_def)
  have "followers db_dup \<noteq> [(1, 2), (1, 2), (1, 2)]"
    by (simp add: db_dup_def)
  with rows have "follow db_dup alice bob \<noteq> db_dup"
    by metis
  with edge rows show ?thesis by simp
qed

text \<open>
  Claim C6, amended.  For users \<open>A\<close> and \<open>B\<close>, with \<open>B\<close> a row of the user table:
  from a state without the edge \<open>(A.id, B.id)\<close>, two calls of \<open>A.follow(B)\<close> in a row
  leave exactly one such edge, and the second call changes nothing; a call made when
  exactly one such edge exists inserts nothing and leaves the state unchanged.  When
  the edge is stored more than once, a call appends one more row.
\<close>

theorem follow_idempotent:
  assumes "primary_keys d" and "B \<in> set (users d)"
  shows "(count_list (followers d) (id_user A, id_user B) = 0 \<longrightarrow>
            count_list (followers (follow (follow d A B) A B)) (id_user A, id_user B) = 1 \<and>
            follow (follow d A B) A B = follow d A B) \<and>
         (count_list (followers d) (id_user A, id_user B) = 1 \<longrightarrow> follow d A B = d) \<and>
         (1 < count_list (followers d) (id_user A, id_user B) \<longrightarrow>
            followers (follow d A B) = followers d @ [(id_user A, id_user B)])"
proof -
  let ?e = "(id_user A, id_user B)"
  have following: "is_following d' A B \<longleftrightarrow> count_list (followers d') ?e = 1"
    if "users d' = users d" "posts d' = posts d" for d'
    using assms that by (simp add: is_following_count primary_keys_def)
  have fresh: "count_list (followers (follow (follow d A B) A B)) ?e = 1 \<and>
      follow (follow d A B) A B = follow d A B"
    if none: "count_list (followers d) ?e = 0"
  proof -
    from none have "\<not> is_following d A B"
      by (rule not_following_without_edge)
    then have first: "follow d A B = d\<lparr>followers := followers d @ [?e]\<rparr>"
      by (simp add: follow_def)
    with none have one: "count_list (followers (follow d A B)) ?e = 1"
      by simp
    from first have "users (follow d A B) = users d" "posts (follow d A B) = posts d"
      by simp_all
    with one have "is_following (follow d A B) A B"
      by (simp add: following)
    then have "follow (follow d A B) A B = follow d A B"
      by (simp add: follow_def)
    with one show ?thesis by simp
  qed
  have present: "follow d A B = d" if "count_list (followers d) ?e = 1"
    using that by (simp add: follow_def following)
  have repeated: "followers (follow d A B) = followers d @ [?e]"
    if "1 < count_list (followers d) ?e"
    using that by (simp add: follow_def following)
  from fresh present repeated show ?thesis by blast
qed

theorem follow_idempotent_witness:
  "primary_keys db_fresh \<and> bob \<in> set (users db_fresh) \<and>
   count_list (followers db_fresh) (id_user alice, id_user bob) = 0 \<and>
   count_list (followers (follow (follow db_fresh alice bob) alice bob)) (id_user alice, id_user bob) = 1 \<and>
   follow (follow db_fresh alice bob) alice bob = follow db_fresh alice bob \<and>
   primary_keys db_feed \<and> bob \<in> set (users db_feed) \<and>
   count_list (followers db_feed) (id_user alice, id_user bob) = 1 \<and>
   follow db_feed alice bob = db_feed"
proof -
  have pk: "primary_keys db_fresh"
    by (simp add: primary_keys_def db_fresh_def alice_def bob_def post1_def post2_def)
  have mem: "bob \<in> set (users db_fresh)"
    by (simp add: db_fresh_def)
  have none: "count_list (followers db_fresh) (id_user alice, id_user bob) = 0"
    by (simp add: db_fresh_def)
  have pk': "primary_keys db_feed"
    by (simp add: primary_keys_def db_feed_def alice_def bob_def post1_def post2_def post3_def)
  have mem': "bob \<in> set (users db_feed)"
    by (simp add: db_feed_def)
  have one: "count_list (followers db_feed) (id_user alice, id_user bob) = 1"
    by (simp add: db_feed_def alice_def bob_def)
  from follow_idempotent [OF pk mem, of alice] none
  have a: "count_list (followers (follow (follow db_fresh alice bob) alice bob)) (id_user alice, id_user bob) = 1 \<and>
      follow (follow db_fresh alice bob) alice bob = follow db_fresh alice bob"
    by blast
  from follow_idempotent [OF pk' mem', of alice] one
  have b: "follow db_feed alice bob = db_feed"
    by blast
  from pk mem none a pk' mem' one b show ?thesis by blast
qed

subsection \<open>\<open>unfollow\<close>\<close>

text \<open>
  Claim C7 says that \<open>A.unfollow(B)\<close> removes the edge \<open>(A.id, B.id)\<close> when it is
  present.  Where the edge is stored twice, \<open>is_following\<close> is false and \<open>unfollow\<close>
  removes nothing.
\<close>

theorem unfollow_keeps_repeated_edge:
  "(id_user alice, id_user bob) \<in> set (followers db_dup) \<and>
   unfollow db_dup alice bob = db_dup"
  by (simp add: unfollow_def is_following_def followed_def db_dup_def alice_def bob_def)

text \<open>
  Claim C7, amended.  For users \<open>A\<close> and \<open>B\<close>, with \<open>B\<close> a row of the user table,
  \<open>A.unfollow(B)\<close> is idempotent.  When exactly one edge \<open>(A.id, B.id)\<close> is present
  it is removed and every other edge stays; when \<open>A\<close> is not following \<open>B\<close> (there
  is no such edge, or it is stored more than once) the state is unchanged; and a second
  call never changes what the first one left.
\<close>

theorem unfollow_idempotent:
  assumes "primary_keys d" and "B \<in> set (users d)"
  shows "(count_list (followers d) (id_user A, id_user B) = 1 \<longrightarrow>
            followers (unfollow d A B) = filter (\<lambda>e. e \<noteq> (id_user A, id_user B)) (followers d) \<and>
            set (followers (unfollow d A B)) = set (followers d) - {(id_user A, id_user B)}) \<and>
         (count_list (followers d) (id_user A, id_user B) \<noteq> 1 \<longleftrightarrow> \<not> is_following d A B) \<and>
         (\<not> is_following d A B \<longrightarrow> unfollow d A B = d) \<and>
         unfollow (unfollow d A B) A B = unfollow d A B"
proof -
  let ?e = "(id_user A, id_user B)"
  have following: "is_following d A B \<longleftrightarrow> count_list (followers d) ?e = 1"
    using assms by (rule is_following_count)
  have present: "followers (unfollow d A B) = filter (\<lambda>e. e \<noteq> ?e) (followers d) \<and>
      set (followers (unfollow d A B)) = set (followers d) - {?e}"
    if "count_list (followers d) ?e = 1"
    using that by (auto simp: unfollow_def following)
  have noop: "\<not> is_following d A B \<longrightarrow> unfollow d A B = d"
    by (simp add: unfollow_def)
  have "\<not> is_following (unfollow d A B) A B"
  proof (cases "is_following d A B")
    case True
    then have "count_list (followers (unfollow d A B)) ?e = 0"
      by (simp add: unfollow_def count_list_filter_neq)
    then show ?thesis by (rule not_following_without_edge)
  next
    case False
    then show ?thesis by (simp add: unfollow_def)
  qed
  then have "unfollow (unfollow d A B) A B = unfollow d A B"
    by (simp add: unfollow_def)
  with present noop following show ?thesis by blast
qed

theorem unfollow_idempotent_witness:
  "primary_keys db_feed \<and> bob \<in> set (users db_feed) \<and>
   count_list (followers db_feed) (id_user alice, id_user bob) = 1 \<and>
   followers (unfollow db_feed alice bob) = [(1, 1)] \<and>
   unfollow (unfollow db_feed alice bob) alice bob = unfollow db_feed alice bob"
proof -
  have pk: "primary_keys db_feed"
    by (simp add: primary_keys_def db_feed_def alice_def bob_def post1_def post2_def post3_def)
  have mem: "bob \<in> set (users db_feed)"
    by (simp add: db_feed_def)
  have one: "count_list (followers db_feed) (id_user alice, id_user bob) = 1"
    by (simp add: db_feed_def alice_def bob_def)
  have rest: "filter (\<lambda>e. e \<noteq> (id_user alice, id_user bob)) (followers db_feed) = [(1, 1)]"
    by (simp add: db_feed_def alice_def bob_def)
  from unfollow_idempotent [OF pk mem, of alice] one rest
  have "followers (unfollow db_feed alice bob) = [(1, 1)] \<and>
      unfollow (unfollow db_feed alice bob) alice bob = unfollow db_feed alice bob"
    by metis
  with pk mem one show ?thesis by blast
qed

section \<open>Properties of the feed\<close>

lemma set_followed_rows:
  "set (followed_rows d U) = {p \<in> set (posts d). (id_user U, user_id p) \<in> set (followers d)}"
  by (auto simp: followed_rows_def prod_eq_iff)

lemma set_own_rows:
  "set (own_rows d U) = {p \<in> set (posts d). user_id p = id_user U}"
  by (auto simp: own_rows_def)

lemma newest_first:
  "sorted_wrt (\<lambda>p q. timestamp q \<le> timestamp p) (sort_key (\<lambda>p. - timestamp p) ps)"
proof -
  have "sorted (map (\<lambda>p. - timestamp p) (sort_key (\<lambda>p. - timestamp p) ps))"
    by (rule sorted_sort_key)
  then show ?thesis by (simp add: sorted_map)
qed

lemma distinct_posts: "primary_keys d \<Longrightarrow> distinct (posts d)"
  by (simp add: primary_keys_def distinct_map)

lemma followed_rows_no_edges:
  "\<forall>e \<in> set (followers d). fst e \<noteq> id_user U \<Longrightarrow> followed_rows d U = []"
  by (auto simp: followed_rows_def)

text \<open>
  Claim C2.  For every user \<open>U\<close>, \<open>U.followed_posts()\<close> holds exactly the posts
  written by a user \<open>U\<close> follows together with the posts \<open>U\<close> wrote, each row
  once, ordered by timestamp descending.  For a user with no follow edges (in a state
  with primary keys) it is \<open>U\<close>'s own posts, newest first.
\<close>

theorem followed_posts_feed:
  "set (followed_posts d U) =
     {p \<in> set (posts d). (id_user U, user_id p) \<in> set (followers d) \<or> user_id p = id_user U} \<and>
   distinct (followed_posts d U) \<and>
   sorted_wrt (\<lambda>p q. timestamp q \<le> timestamp p) (followed_posts d U) \<and>
   (primary_keys d \<and> (\<forall>e \<in> set (followers d). fst e \<noteq> id_user U) \<longrightarrow>
      followed_posts d U = sort_key (\<lambda>p. - timestamp p) (own_rows d U))"
proof -
  have members: "set (followed_posts d U) =
     {p \<in> set (posts d). (id_user U, user_id p) \<in> set (followers d) \<or> user_id p = id_user U}"
    by (auto simp: followed_posts_def set_followed_rows set_own_rows)
  have once: "distinct (followed_posts d U)"
    by (simp add: followed_posts_def)
  have order: "sorted_wrt (\<lambda>p q. timestamp q \<le> timestamp p) (followed_posts d U)"
    unfolding followed_posts_def by (rule newest_first)
  have alone: "followed_posts d U = sort_key (\<lambda>p. - timestamp p) (own_rows d U)"
    if pk: "primary_keys d" and none: "\<forall>e \<in> set (followers d). fst e \<noteq> id_user U"
  proof -
    from pk have "distinct (own_rows d U)"
      by (simp add: own_rows_def distinct_posts)
    with none show ?thesis
      by (simp add: followed_posts_def followed_rows_no_edges distinct_remdups_id)
  qed
  from members once order alone show ?thesis by blast
qed

theorem followed_posts_feed_witness:
  "followed_posts db_feed alice = [post2, post3, post1] \<and>
   primary_keys db_fresh \<and> followers db_fresh = [] \<and>
   followed_posts db_fresh alice = [post2, post1]"
proof -
  have feed: "followed_posts db_feed alice = [post2, post3, post1]"
    by (simp add: followed_posts_def followed_rows_def own_rows_def db_feed_def alice_def
        post1_def post2_def post3_def)
  have pk: "primary_keys db_fresh"
    by (simp add: primary_keys_def db_fresh_def alice_def bob_def post1_def post2_def)
  have none: "\<forall>e \<in> set (followers db_fresh). fst e \<noteq> id_user alice"
    by (simp add: db_fresh_def)
  have "sort_key (\<lambda>p. - timestamp p) (own_rows db_fresh alice) = [post2, post1]"
    by (simp add: own_rows_def db_fresh_def alice_def post1_def post2_def)
  with followed_posts_feed [of db_fresh alice] pk none
  have "followed_posts db_fresh alice = [post2, post1]" by metis
  with feed pk show ?thesis by (simp add: db_fresh_def)
qed

text \<open>
  Claim C10.  A user \<open>U\<close> who follows themselves gets each of their own posts from
  both branches of the union, the join and the own-posts query, and still
  \<open>U.followed_posts()\<close> lists the post exactly once.
\<close>

theorem self_follow_lists_own_posts_once:
  assumes "(id_user U, id_user U) \<in> set (followers d)"
    and "p \<in> set (posts d)" and "user_id p = id_user U"
  shows "p \<in> set (followed_rows d U) \<and> p \<in> set (own_rows d U) \<and>
         count_list (followed_posts d U) p = 1"
proof -
  from assms have both: "p \<in> set (followed_rows d U)" "p \<in> set (own_rows d U)"
    by (simp_all add: set_followed_rows set_own_rows)
  then have "p \<in> set (followed_posts d U)"
    by (simp add: followed_posts_def)
  moreover have "distinct (followed_posts d U)"
    by (simp add: followed_posts_def)
  ultimately have "count_list (followed_posts d U) p = 1"
    by (simp add: distinct_count_list)
  with both show ?thesis by simp
qed

theorem self_follow_lists_own_posts_once_witness:
  "(id_user alice, id_user alice) \<in> set (followers db_feed) \<and>
   post1 \<in> set (posts db_feed) \<and> user_id post1 = id_user alice \<and>
   count_list (followed_rows db_feed alice @ own_rows db_feed alice) post1 = 2 \<and>
   count_list (followed_posts db_feed alice) post1 = 1"
proof -
  have self: "(id_user alice, id_user alice) \<in> set (followers db_feed)"
    by (simp add: db_feed_def alice_def)
  have row: "post1 \<in> set (posts db_feed)"
    by (simp add: db_feed_def)
  have own: "user_id post1 = id_user alice"
    by (simp add: post1_def alice_def)
  have twice: "count_list (followed_rows db_feed alice @ own_rows db_feed alice) post1 = 2"
    by (simp add: followed_rows_def own_rows_def db_feed_def alice_def
        post1_def post2_def post3_def)
  from self_follow_lists_own_posts_once [OF self row own] self row own twice
  show ?thesis by simp
qed

section \<open>\<open>followed_users\<close> after \<open>follow\<close>\<close>

lemma find_by_key:
  "distinct (map f us) \<Longrightarrow> u \<in> set us \<Longrightarrow> find (\<lambda>v. f v = f u) us = Some u"
  by (induction us) (auto simp: image_iff)

lemma find_key_Some:
  "find (\<lambda>v. f v = k) us = Some u \<Longrightarrow> u \<in> set us \<and> f u = k"
  by (induction us) (auto split: if_splits)

text \<open>
  What \<open>followed_users\<close> returns: a user \<open>b\<close> of the table is in the set exactly
  when the edge exists and \<open>b\<close> has written at least one post.
\<close>

lemma followed_users_iff:
  assumes "primary_keys d" and "b \<in> set (users d)"
  shows "Some b \<in> followed_users d a \<longleftrightarrow>
           (id_user a, id_user b) \<in> set (followers d) \<and> (\<exists>p \<in> set (posts d). user_id p = id_user b)"
proof
  assume "Some b \<in> followed_users d a"
  then obtain p where p: "p \<in> set (followed_rows d a)"
      and "find (\<lambda>u. id_user u = user_id p) (users d) = Some b"
    by (auto simp: followed_users_def)
  then have "user_id p = id_user b"
    by (auto dest: find_key_Some)
  with p show "(id_user a, id_user b) \<in> set (followers d) \<and> (\<exists>p \<in> set (posts d). user_id p = id_user b)"
    by (auto simp: set_followed_rows)
next
  assume "(id_user a, id_user b) \<in> set (followers d) \<and> (\<exists>p \<in> set (posts d). user_id p = id_user b)"
  then obtain p where "p \<in> set (followed_rows d a)" and "user_id p = id_user b"
    by (auto simp: set_followed_rows)
  moreover from assms have "find (\<lambda>u. id_user u = id_user b) (users d) = Some b"
    by (simp add: find_by_key primary_keys_def)
  ultimately show "Some b \<in> followed_users d a"
    by (force simp: followed_users_def)
qed

text \<open>
  Claim C1 says that after \<open>A.follow(B)\<close>, for distinct users, \<open>A.is_following(B)\<close>
  is true and \<open>B\<close> is in \<open>A.followed_users()\<close> whether or not \<open>B\<close> has written a
  post.  The first half holds; the second does not, because \<open>followed_users\<close> reaches
  the followed users through their posts.  Alice follows bob, who has no post: she is
  following him, and her set of followed users is empty.
\<close>

theorem followed_users_omits_user_without_posts:
  "alice \<noteq> bob \<and>
   is_following (follow db_fresh alice bob) alice bob \<and>
   Some bob \<notin> followed_users (follow db_fresh alice bob) alice \<and>
   followed_users (follow db_fresh alice bob) alice = {}"
  by (simp add: follow_def is_following_def followed_def followed_users_def followed_rows_def
      db_fresh_def alice_def bob_def post1_def post2_def)

section \<open>Properties of session resolution\<close>

lemma py_int_error: "py_int limit s = Inl e \<Longrightarrow> e = ValueError"
  by (auto simp: py_int_def Let_def split: list.splits option.splits if_splits)

lemma digit_not_underscore: "py_isdigit c \<Longrightarrow> c \<noteq> CHR ''_''"
  by (auto simp: py_isdigit_def)

lemma digit_not_space: "py_isdigit c \<Longrightarrow> \<not> py_isspace c"
  by (auto simp: py_isdigit_def py_isspace_def)

lemma digit_not_sign: "py_isdigit c \<Longrightarrow> c \<noteq> CHR ''+'' \<and> c \<noteq> CHR ''-''"
  by (auto simp: py_isdigit_def)

lemma scan_int_digits:
  "list_all py_isdigit s \<Longrightarrow> prev \<noteq> CHR ''_'' \<Longrightarrow>
     \<exists>v. scan_int acc n prev s = Some (v, n + length s, [])"
proof (induction s arbitrary: acc n prev)
  case Nil
  then show ?case by simp
next
  case (Cons c cs)
  then have "py_isdigit c" and "list_all py_isdigit cs" by simp_all
  with Cons.IH [of c "10 * acc + digit_value c" "Suc n"] show ?case
    by (simp add: digit_not_underscore)
qed

text \<open>A run of digits that is longer than the limit is rejected.\<close>

lemma py_int_digit_limit:
  assumes "list_all py_isdigit s" and "exceeds_digit_limit limit (length s)"
  shows "py_int limit s = Inl ValueError"
proof -
  from assms(2) have "s \<noteq> []"
    by (auto simp: exceeds_digit_limit_def)
  with assms(1) obtain c cs where s: "s = c # cs" and c: "py_isdigit c"
    by (cases s) auto
  from scan_int_digits [OF assms(1), of c 0 0] c obtain v
    where "scan_int 0 0 c s = Some (v, length s, [])"
    by (auto simp: digit_not_underscore)
  with s c assms(2) show ?thesis
    by (simp add: py_int_def digit_not_space digit_not_sign)
qed

lemma find_unknown_key: "k \<notin> f ` set us \<Longrightarrow> find (\<lambda>u. f u = k) us = None"
  by (auto simp: find_None_iff)

text \<open>
  Claim C3 says that \<open>load_user\<close> yields "no user" instead of raising, both for a
  non-numeric identifier and for one that names no user.  For a non-numeric identifier
  \<open>int(id)\<close> raises \<open>ValueError\<close>, and nothing catches it; and on \<open>sqlite3\<close> an
  identifier that names no user because its number does not fit 64 bits makes the query
  raise \<open>OverflowError\<close>.
\<close>

theorem load_user_raises:
  "load_user cpython_sqlite db_fresh ''abc'' = Inl ValueError \<and>
   load_user cpython_sqlite db_fresh ''9223372036854775808'' = Inl OverflowError"
proof -
  have "load_user cpython_sqlite db_fresh ''abc'' = Inl ValueError"
    by (simp add: load_user_def py_int_def py_isspace_def py_isdigit_def)
  moreover have "py_int 4300 ''9223372036854775808'' = Inr 9223372036854775808"
    by (simp add: py_int_def py_isspace_def py_isdigit_def digit_value_def
        exceeds_digit_limit_def)
  then have "load_user cpython_sqlite db_fresh ''9223372036854775808'' = Inl OverflowError"
    by (simp add: load_user_def cpython_sqlite_def binds_def)
  ultimately show ?thesis by simp
qed

text \<open>
  Claim C3, amended.  For every identifier that \<open>int\<close> parses to an integer which the
  database driver can bind and which names no existing user, \<open>load_user\<close> yields
  "no user" without raising.  For an identifier that \<open>int\<close> rejects, \<open>load_user\<close>
  raises \<open>ValueError\<close>; for one whose integer the driver cannot bind, it raises
  \<open>OverflowError\<close>.
\<close>

theorem load_user_unknown_or_malformed:
  "(py_int (max_str_digits r) ident = Inr k \<and> binds r k \<and> k \<notin> id_user ` set (users d) \<longrightarrow>
      load_user r d ident = Inr None) \<and>
   (py_int (max_str_digits r) ident = Inl err \<longrightarrow> load_user r d ident = Inl ValueError) \<and>
   (py_int (max_str_digits r) ident = Inr k \<and> \<not> binds r k \<longrightarrow>
      load_user r d ident = Inl OverflowError)"
proof -
  have "load_user r d ident = Inl ValueError" if "py_int (max_str_digits r) ident = Inl err"
    using that py_int_error [OF that] by (simp add: load_user_def)
  then show ?thesis
    by (auto simp: load_user_def find_unknown_key)
qed

theorem load_user_unknown_or_malformed_witness:
  "py_int (max_str_digits cpython_sqlite) ''3'' = Inr 3 \<and> binds cpython_sqlite 3 \<and>
   3 \<notin> id_user ` set (users db_fresh) \<and>
   load_user cpython_sqlite db_fresh ''3'' = Inr None \<and>
   py_int (max_str_digits cpython_sqlite) ''12a'' = Inl ValueError \<and>
   load_user cpython_sqlite db_fresh ''12a'' = Inl ValueError \<and>
   py_int (max_str_digits cpython_sqlite) ''-9223372036854775809'' = Inr (- 9223372036854775809) \<and>
   \<not> binds cpython_sqlite (- 9223372036854775809) \<and>
   load_user cpython_sqlite db_fresh ''-9223372036854775809'' = Inl OverflowError"
proof -
  have parse: "py_int (max_str_digits cpython_sqlite) ''3'' = Inr 3"
    by (simp add: py_int_def py_isspace_def py_isdigit_def digit_value_def
        exceeds_digit_limit_def)
  have fits: "binds cpython_sqlite 3"
    by (simp add: binds_def cpython_sqlite_def)
  have unknown: "3 \<notin> id_user ` set (users db_fresh)"
    by (simp add: db_fresh_def alice_def bob_def)
  have bad: "py_int (max_str_digits cpython_sqlite) ''12a'' = Inl ValueError"
    by (simp add: py_int_def py_isspace_def py_isdigit_def digit_value_def
        exceeds_digit_limit_def)
  have big: "py_int (max_str_digits cpython_sqlite) ''-9223372036854775809'' =
      Inr (- 9223372036854775809)"
    by (simp add: py_int_def py_isspace_def py_isdigit_def digit_value_def
        exceeds_digit_limit_def)
  have wide: "\<not> binds cpython_sqlite (- 9223372036854775809)"
    by (simp add: binds_def cpython_sqlite_def)
  from load_user_unknown_or_malformed [of cpython_sqlite "''3''" 3 db_fresh] parse fits unknown
  have a: "load_user cpython_sqlite db_fresh ''3'' = Inr None" by blast
  from load_user_unknown_or_malformed [of cpython_sqlite "''12a''" 0 db_fresh ValueError] bad
  have b: "load_user cpython_sqlite db_fresh ''12a'' = Inl ValueError" by blast
  from load_user_unknown_or_malformed
    [of cpython_sqlite "''-9223372036854775809''" "- 9223372036854775809" db_fresh] big wide
  have c: "load_user cpython_sqlite db_fresh ''-9223372036854775809'' = Inl OverflowError"
    by blast
  from parse fits unknown a bad b big wide c show ?thesis by blast
qed

section \<open>Properties of the credentials\<close>

lemma split_dollar_append:
  "CHR ''$'' \<notin> set m \<Longrightarrow> split_dollar (m @ ''$'' @ r) = (m, r)"
  by (induction m) (auto simp: split_dollar_def)

lemma stored_hash_check:
  assumes "CHR ''$'' \<notin> set m" and "CHR ''$'' \<notin> set s" and "kdf m s p = Inr dg'"
  shows "check_password_hash kdf (Some (m @ ''$'' @ s @ ''$'' @ dg)) p = Inr (dg' = dg)"
proof -
  have "\<not> count_list (m @ ''$'' @ s @ ''$'' @ dg) CHR ''$'' < 2"
    by simp
  moreover have "split_dollar (m @ ''$'' @ s @ ''$'' @ dg) = (m, s @ ''$'' @ dg)"
    using assms(1) by (rule split_dollar_append)
  moreover have "split_dollar (s @ ''$'' @ dg) = (s, dg)"
    using assms(2) by (rule split_dollar_append)
  ultimately show ?thesis
    using assms(3) by (simp add: check_password_hash_def)
qed

text \<open>
  Claim C4 says that \<open>check_password\<close> returns false and never raises on a mismatch,
  also when no hash has been set.  With \<open>password_hash\<close> unset the library call is
  made on \<open>None\<close> and raises.
\<close>

theorem check_password_unset_hash_raises:
  "check_password demo_kdf alice ''secret'' = Inl AttributeError"
  by (simp add: check_password_def check_password_hash_def alice_def)

text \<open>
  Claim C4, amended.  For every user with a stored hash \<open>method$salt$digest\<close> and
  every plaintext whose digest under that method and salt differs from the stored one,
  \<open>check_password\<close> returns false without raising; so it does for a stored text with
  fewer than two \<open>$\<close>.  With no hash set, \<open>check_password\<close> raises
  \<open>AttributeError\<close>.
\<close>

theorem check_password_mismatch:
  "(password_hash U = Some (m @ ''$'' @ s @ ''$'' @ dg) \<and> CHR ''$'' \<notin> set m \<and> CHR ''$'' \<notin> set s \<and>
      kdf m s p = Inr dg' \<and> dg' \<noteq> dg \<longrightarrow> check_password kdf U p = Inr False) \<and>
   (password_hash U = Some h \<and> count_list h CHR ''$'' < 2 \<longrightarrow> check_password kdf U p = Inr False) \<and>
   (password_hash U = None \<longrightarrow> check_password kdf U p = Inl AttributeError)"
proof -
  have "check_password kdf U p = Inr False"
    if stored: "password_hash U = Some (m @ ''$'' @ s @ ''$'' @ dg)"
      and m: "CHR ''$'' \<notin> set m" and s: "CHR ''$'' \<notin> set s"
      and dg': "kdf m s p = Inr dg'" and ne: "dg' \<noteq> dg"
  proof -
    from stored have "check_password kdf U p =
        check_password_hash kdf (Some (m @ ''$'' @ s @ ''$'' @ dg)) p"
      by (simp only: check_password_def)
    also from m s dg' have "\<dots> = Inr (dg' = dg)"
      by (rule stored_hash_check)
    finally show ?thesis using ne by simp
  qed
  moreover have "check_password kdf U p = Inr False"
    if "password_hash U = Some h" "count_list h CHR ''$'' < 2"
    using that by (simp add: check_password_def check_password_hash_def)
  moreover have "check_password kdf U p = Inl AttributeError" if "password_hash U = None"
    using that by (simp add: check_password_def check_password_hash_def)
  ultimately show ?thesis by blast
qed

theorem check_password_mismatch_witness:
  "password_hash (alice\<lparr>password_hash := Some ''pbkdf2:sha256:1000$abcd$tercesabcd''\<rparr>) =
     Some (''pbkdf2:sha256:1000'' @ ''$'' @ ''abcd'' @ ''$'' @ ''tercesabcd'') \<and>
   CHR ''$'' \<notin> set ''pbkdf2:sha256:1000'' \<and> CHR ''$'' \<notin> set ''abcd'' \<and>
   demo_kdf ''pbkdf2:sha256:1000'' ''abcd'' ''guess'' = Inr ''sseugabcd'' \<and>
   ''sseugabcd'' \<noteq> ''tercesabcd'' \<and>
   check_password demo_kdf (alice\<lparr>password_hash := Some ''pbkdf2:sha256:1000$abcd$tercesabcd''\<rparr>) ''guess'' = Inr False"
proof -
  let ?U = "alice\<lparr>password_hash := Some ''pbkdf2:sha256:1000$abcd$tercesabcd''\<rparr>"
  have stored: "password_hash ?U = Some (''pbkdf2:sha256:1000'' @ ''$'' @ ''abcd'' @ ''$'' @ ''tercesabcd'')"
    by simp
  have m: "CHR ''$'' \<notin> set ''pbkdf2:sha256:1000''" by simp
  have s: "CHR ''$'' \<notin> set ''abcd''" by simp
  have dg: "demo_kdf ''pbkdf2:sha256:1000'' ''abcd'' ''guess'' = Inr ''sseugabcd''"
    by (simp add: demo_kdf_def)
  have ne: "''sseugabcd'' \<noteq> ''tercesabcd''" by simp
  from check_password_mismatch [of ?U "''pbkdf2:sha256:1000''" "''abcd''" "''tercesabcd''" demo_kdf
      "''guess''" "''sseugabcd''"] stored m s dg ne
  have "check_password demo_kdf ?U ''guess'' = Inr False" by blast
  with stored m s dg ne show ?thesis by blast
qed

text \<open>
  Claim C8 says that \<open>check_password\<close> is true right after \<open>set_password\<close> of the
  same plaintext, and false for any input before a password has been set.  Before any
  password has been set the call raises instead of returning false.
\<close>

theorem check_password_before_set_password_raises:
  "check_password demo_kdf bob ''hunter2'' = Inl AttributeError"
  by (simp add: check_password_def check_password_hash_def bob_def)

text \<open>
  Claim C8, amended.  For every user and plaintext \<open>p\<close>, \<open>set_password(p)\<close>
  succeeds and right after it \<open>check_password(p)\<close> returns true (the method string
  and the salt hold no \<open>$\<close>, and the key derivation accepts them).  Before any
  password has been set, \<open>check_password\<close> of any input raises \<open>AttributeError\<close>.
\<close>

theorem check_password_after_set_password:
  "(CHR ''$'' \<notin> set m \<and> CHR ''$'' \<notin> set s \<and> kdf m s p = Inr dg \<longrightarrow>
      (\<exists>U'. set_password kdf m s U p = Inr U' \<and> check_password kdf U' p = Inr True)) \<and>
   (password_hash U = None \<longrightarrow> check_password kdf U q = Inl AttributeError)"
proof -
  have "check_password kdf (U\<lparr>password_hash := Some (m @ ''$'' @ s @ ''$'' @ dg)\<rparr>) p = Inr True"
    if "CHR ''$'' \<notin> set m" "CHR ''$'' \<notin> set s" "kdf m s p = Inr dg"
    using stored_hash_check [of m s kdf p dg dg] that by (simp add: check_password_def)
  moreover have "check_password kdf U q = Inl AttributeError" if "password_hash U = None"
    using that by (simp add: check_password_def check_password_hash_def)
  ultimately show ?thesis
    by (auto simp: set_password_def generate_password_hash_def)
qed

theorem check_password_after_set_password_witness:
  "CHR ''$'' \<notin> set ''pbkdf2:sha256:1000'' \<and> CHR ''$'' \<notin> set ''abcd'' \<and>
   demo_kdf ''pbkdf2:sha256:1000'' ''abcd'' ''secret'' = Inr ''tercesabcd'' \<and>
   set_password demo_kdf ''pbkdf2:sha256:1000'' ''abcd'' bob ''secret'' =
     Inr (bob\<lparr>password_hash := Some ''pbkdf2:sha256:1000$abcd$tercesabcd''\<rparr>) \<and>
   check_password demo_kdf (bob\<lparr>password_hash := Some ''pbkdf2:sha256:1000$abcd$tercesabcd''\<rparr>) ''secret'' = Inr True"
proof -
  have m: "CHR ''$'' \<notin> set ''pbkdf2:sha256:1000''" by simp
  have s: "CHR ''$'' \<notin> set ''abcd''" by simp
  have dg: "demo_kdf ''pbkdf2:sha256:1000'' ''abcd'' ''secret'' = Inr ''tercesabcd''"
    by (simp add: demo_kdf_def)
  have st: "set_password demo_kdf ''pbkdf2:sha256:1000'' ''abcd'' bob ''secret'' =
     Inr (bob\<lparr>password_hash := Some ''pbkdf2:sha256:1000$abcd$tercesabcd''\<rparr>)"
    by (simp add: set_password_def generate_password_hash_def demo_kdf_def)
  from check_password_after_set_password [of "''pbkdf2:sha256:1000''" "''abcd''" demo_kdf "''secret''"
      "''tercesabcd''" bob] m s dg st
  have "check_password demo_kdf (bob\<lparr>password_hash := Some ''pbkdf2:sha256:1000$abcd$tercesabcd''\<rparr>) ''secret'' = Inr True"
    by auto
  with m s dg st show ?thesis by blast
qed

section \<open>Properties of the avatar\<close>

lemma lower_char_idem: "lower_char (lower_char c) = lower_char c"
  by (auto simp: lower_char_def)

lemma lower_idem: "lower (lower e) = lower e"
  by (simp add: lower_def lower_char_idem)

text \<open>
  Claim C9.  \<open>avatar(size)\<close> is a function of the email and the size alone: two
  users with the same email get the same result for the same size, and two emails that
  differ only in letter case (they are equal once lowercased) give the same URL, as do
  an email and its lowercased form.
\<close>

theorem avatar_deterministic:
  "(email U1 = email U2 \<longrightarrow> avatar md5 U1 sz = avatar md5 U2 sz) \<and>
   (email U1 = Some e1 \<and> email U2 = Some e2 \<and> lower e1 = lower e2 \<longrightarrow>
      avatar md5 U1 sz = avatar md5 U2 sz \<and> (\<exists>link. avatar md5 U1 sz = Inr link)) \<and>
   avatar md5 (U1\<lparr>email := Some (lower e1)\<rparr>) sz = avatar md5 (U1\<lparr>email := Some e1\<rparr>) sz"
proof -
  have same: "avatar md5 U1 sz = avatar md5 U2 sz" if "email U1 = email U2"
    using that by (simp add: avatar_def)
  have fold: "avatar md5 U1 sz = avatar md5 U2 sz \<and> (\<exists>link. avatar md5 U1 sz = Inr link)"
    if "email U1 = Some e1" "email U2 = Some e2" "lower e1 = lower e2"
    using that by (simp add: avatar_def)
  have "avatar md5 (U1\<lparr>email := Some (lower e1)\<rparr>) sz = avatar md5 (U1\<lparr>email := Some e1\<rparr>) sz"
    by (simp add: avatar_def lower_idem)
  with same fold show ?thesis by blast
qed

theorem avatar_deterministic_witness:
  "email alice = Some ''Alice@Example.com'' \<and> email bob = Some ''alice@example.COM'' \<and>
   ''Alice@Example.com'' \<noteq> ''alice@example.COM'' \<and>
   lower ''Alice@Example.com'' = lower ''alice@example.COM'' \<and>
   avatar demo_md5 alice 128 = avatar demo_md5 bob 128 \<and>
   avatar demo_md5 alice 128 = Inr ''https://www.gravatar.com/avatar/moc.elpmaxe@ecila?d=identicon&s=128''"
proof -
  have a: "email alice = Some ''Alice@Example.com''" by (simp add: alice_def)
  have b: "email bob = Some ''alice@example.COM''" by (simp add: bob_def)
  have ne: "''Alice@Example.com'' \<noteq> ''alice@example.COM''" by simp
  have low: "lower ''Alice@Example.com'' = lower ''alice@example.COM''"
    by code_simp
  have link: "avatar demo_md5 alice 128 = Inr ''https://www.gravatar.com/avatar/moc.elpmaxe@ecila?d=identicon&s=128''"
    by code_simp
  from avatar_deterministic [of alice bob demo_md5 128 "''Alice@Example.com''" "''alice@example.COM''"] a b low
  have "avatar demo_md5 alice 128 = avatar demo_md5 bob 128" by blast
  with a b ne low link show ?thesis by blast
qed

end
